theory Spec2Isabelle
  imports Main "HOL-Library.Sublist" "HOL-Library.Code_Target_Numeral"
begin

section \<open>Byte strings and the Go string helpers used by main.go\<close>

text \<open>
  A Go \<^verbatim>\<open>string\<close> is a sequence of bytes; \<^verbatim>\<open>len\<close> and indexing work on bytes.
  Isabelle's \<^typ>\<open>char\<close> is one byte, so a filename is a \<^typ>\<open>string\<close>.
\<close>

type_synonym filename = string

text \<open>\<^verbatim>\<open>strings.HasPrefix(s, prefix)\<close>:
  \<^verbatim>\<open>len(s) >= len(prefix) && s[:len(prefix)] == prefix\<close>.\<close>

definition HasPrefix :: "string \<Rightarrow> string \<Rightarrow> bool" where
  "HasPrefix s p = (length s \<ge> length p \<and> take (length p) s = p)"

text \<open>\<^verbatim>\<open>strings.TrimPrefix(s, prefix)\<close>: \<^verbatim>\<open>s[len(prefix):]\<close> when \<^verbatim>\<open>HasPrefix\<close>
  holds, \<^verbatim>\<open>s\<close> otherwise.\<close>

definition TrimPrefix :: "string \<Rightarrow> string \<Rightarrow> string" where
  "TrimPrefix s p = (if HasPrefix s p then drop (length p) s else s)"

text \<open>
  \<^verbatim>\<open>strings.TrimSpace\<close> of the Go standard library removes the leading and the trailing
  white space runes of a UTF-8 string (\<^verbatim>\<open>unicode.IsSpace\<close>). A rune is decoded from the
  bytes at the cut; an invalid byte decodes to U+FFFD, which is not white space. UTF-8
  decoding is unique, so the string starts (ends) with a white space rune exactly when it
  starts (ends) with one of the following encodings: the six ASCII bytes
  \<^verbatim>\<open>\t \n \v \f \r\<close> and space, U+0085, U+00A0, U+1680, U+2000 to U+200A, U+2028,
  U+2029, U+202F, U+205F and U+3000.
\<close>

definition spaceEncodings :: "string list" where
  "spaceEncodings =
    [[CHR 0x09], [CHR 0x0A], [CHR 0x0B], [CHR 0x0C], [CHR 0x0D], [CHR 0x20],
     [CHR 0xC2, CHR 0x85], [CHR 0xC2, CHR 0xA0],
     [CHR 0xE1, CHR 0x9A, CHR 0x80],
     [CHR 0xE2, CHR 0x80, CHR 0x80], [CHR 0xE2, CHR 0x80, CHR 0x81],
     [CHR 0xE2, CHR 0x80, CHR 0x82], [CHR 0xE2, CHR 0x80, CHR 0x83],
     [CHR 0xE2, CHR 0x80, CHR 0x84], [CHR 0xE2, CHR 0x80, CHR 0x85],
     [CHR 0xE2, CHR 0x80, CHR 0x86], [CHR 0xE2, CHR 0x80, CHR 0x87],
     [CHR 0xE2, CHR 0x80, CHR 0x88], [CHR 0xE2, CHR 0x80, CHR 0x89],
     [CHR 0xE2, CHR 0x80, CHR 0x8A],
     [CHR 0xE2, CHR 0x80, CHR 0xA8], [CHR 0xE2, CHR 0x80, CHR 0xA9],
     [CHR 0xE2, CHR 0x80, CHR 0xAF], [CHR 0xE2, CHR 0x81, CHR 0x9F],
     [CHR 0xE3, CHR 0x80, CHR 0x80]]"

text \<open>The byte width of the white space rune at the front (at the end) of \<open>s\<close>;
  \<open>0\<close> when the first (last) rune is not white space or \<open>s\<close> is empty. The two
  trimming loops remove one rune at a time; their test \<open>w > length s\<close> never holds and
  only makes the termination evident.\<close>

definition leadingSpaceWidth :: "string \<Rightarrow> nat" where
  "leadingSpaceWidth s =
     (case List.find (\<lambda>e. HasPrefix s e) spaceEncodings of None \<Rightarrow> 0 | Some e \<Rightarrow> length e)"

definition trailingSpaceWidth :: "string \<Rightarrow> nat" where
  "trailingSpaceWidth s =
     (case List.find (\<lambda>e. HasPrefix (rev s) (rev e)) spaceEncodings of
        None \<Rightarrow> 0 | Some e \<Rightarrow> length e)"

function trimLeftSpace :: "string \<Rightarrow> string" where
  "trimLeftSpace s =
     (let w = leadingSpaceWidth s in
      if w = 0 \<or> w > length s then s else trimLeftSpace (drop w s))"
  by pat_completeness auto
termination
  by (relation "measure length") auto

function trimRightSpace :: "string \<Rightarrow> string" where
  "trimRightSpace s =
     (let w = trailingSpaceWidth s in
      if w = 0 \<or> w > length s then s else trimRightSpace (take (length s - w) s))"
  by pat_completeness auto
termination
  by (relation "measure length") auto

declare trimLeftSpace.simps [simp del] trimRightSpace.simps [simp del]

definition TrimSpace :: "string \<Rightarrow> string" where
  "TrimSpace s = trimRightSpace (trimLeftSpace s)"

text \<open>
  \<^verbatim>\<open>strings.ToLower\<close>: on a string of ASCII bytes only, every byte \<^verbatim>\<open>'A'..'Z'\<close> is
  replaced by its lower-case byte. A string with a byte \<open>\<ge> 0x80\<close> is mapped rune by rune
  through the Unicode tables (\<^verbatim>\<open>strings.Map(unicode.ToLower, s)\<close>); that mapping is
  the parameter \<open>unicodeLower\<close>.
\<close>

definition isASCII :: "string \<Rightarrow> bool" where
  "isASCII s = list_all (\<lambda>c. (of_char c :: nat) < 128) s"

definition asciiLower :: "char \<Rightarrow> char" where
  "asciiLower c =
     (if (65::nat) \<le> of_char c \<and> (of_char c :: nat) \<le> 90 then char_of (of_char c + (32::nat))
      else c)"

definition ToLower :: "(string \<Rightarrow> string) \<Rightarrow> string \<Rightarrow> string" where
  "ToLower unicodeLower s = (if isASCII s then map asciiLower s else unicodeLower s)"

section \<open>Separator scan\<close>

text \<open>The five one-byte separators tested in both backward scans of main.go
  (lines 65 and 119).\<close>

definition isSepByte :: "char \<Rightarrow> bool" where
  "isSepByte ch = (ch = CHR ''-'' \<or> ch = CHR ''_'' \<or> ch = CHR '' '' \<or> ch = CHR '')'' \<or> ch = CHR '']'')"

text \<open>
  The backward loop \<^verbatim>\<open>for i := len(prefix) - 1; i >= 0; i--\<close> with its two
  \<^verbatim>\<open>break\<close>s. \<open>scanSep p n\<close> is the loop about to examine index \<open>n - 1\<close>;
  it returns the value of \<^verbatim>\<open>lastSep\<close> when the loop ends (initially \<open>-1\<close>).
\<close>

fun scanSep :: "string \<Rightarrow> nat \<Rightarrow> int" where
  "scanSep p 0 = - 1"
| "scanSep p (Suc i) =
     (if isSepByte (p ! i) then int i + 1
      else if i \<ge> 2 \<and> p ! (i - 2) = CHR 0xE3 \<and> p ! (i - 1) = CHR 0x80 \<and> p ! i = CHR 0x91
           then int i + 1
      else scanSep p i)"

definition lastSepOf :: "string \<Rightarrow> int" where
  "lastSepOf p = scanSep p (length p)"

section \<open>findCommonPrefix\<close>

text \<open>The loop computing \<^verbatim>\<open>minLen\<close> (lines 28-33), one step per element.\<close>

definition minLenStep :: "string \<Rightarrow> nat \<Rightarrow> nat" where
  "minLenStep s minLen = (if length s < minLen then length s else minLen)"

definition minLenOf :: "string list \<Rightarrow> nat" where
  "minLenOf strs = fold minLenStep strs (length (strs ! 0))"

text \<open>The inner loop of lines 40-45: \<^verbatim>\<open>allMatch\<close> after comparing byte \<open>i\<close> of
  every string with \<^verbatim>\<open>char\<close>.\<close>

fun allMatch :: "string list \<Rightarrow> nat \<Rightarrow> char \<Rightarrow> bool" where
  "allMatch [] i c = True"
| "allMatch (s # ss) i c = (if s ! i \<noteq> c then False else allMatch ss i c)"

text \<open>The outer loop of lines 36-51; the result is the final \<^verbatim>\<open>prefixLen\<close>.\<close>

function prefixLenLoop :: "string list \<Rightarrow> nat \<Rightarrow> nat \<Rightarrow> nat \<Rightarrow> nat" where
  "prefixLenLoop strs minLen i prefixLen =
     (if i < minLen then
        (if allMatch strs i ((strs ! 0) ! i) then prefixLenLoop strs minLen (i + 1) (i + 1)
         else prefixLen)
      else prefixLen)"
  by pat_completeness auto
termination
  by (relation "measure (\<lambda>(strs, minLen, i, prefixLen). minLen - i)") auto

declare prefixLenLoop.simps [simp del]

text \<open>Lines 60-80, the trimming of the raw prefix as findCommonPrefix does it.\<close>

definition trimCommon :: "string \<Rightarrow> string" where
  "trimCommon pfx =
     (let lastSep = lastSepOf pfx in
      if lastSep > 0 \<and> lastSep < int (length pfx) then take (nat lastSep) pfx
      else pfx)"

definition findCommonPrefix :: "string list \<Rightarrow> string" where
  "findCommonPrefix strs =
     (if length strs = 0 then []
      else if length strs = 1 then []
      else let prefixLen = prefixLenLoop strs (minLenOf strs) 0 0 in
        if prefixLen = 0 then []
        else trimCommon (take prefixLen (strs ! 0)))"

section \<open>findMajorityPrefix\<close>

text \<open>
  Line 91, \<^verbatim>\<open>threshold := int(float64(len(strs)) * 0.7)\<close>, is IEEE 754 double
  arithmetic. A positive double is a natural number of at most 53 binary digits times a
  power of two; \<open>roundFloat64 k\<close> rounds the natural number \<open>k\<close> to the nearest number with
  53 significant binary digits, ties to the even one (the default rounding of every
  float64 operation). Rounding commutes with scaling by a power of two, so the same
  function rounds \<open>k / 2 ^ 53\<close>. A length below \<open>2 ^ 53\<close> is converted exactly.
\<close>

function bitLength :: "nat \<Rightarrow> nat" where
  "bitLength n = (if n = 0 then 0 else Suc (bitLength (n div 2)))"
  by pat_completeness auto
termination
  by (relation "measure id") auto

declare bitLength.simps [simp del]

definition roundFloat64 :: "nat \<Rightarrow> nat" where
  "roundFloat64 k =
     (let s = bitLength k - 53; q = k div 2 ^ s; r = k mod 2 ^ s in
      if 2 * r > 2 ^ s \<or> (2 * r = 2 ^ s \<and> odd q) then (q + 1) * 2 ^ s else q * 2 ^ s)"

text \<open>The constant \<^verbatim>\<open>0.7\<close> as a float64 is \<^verbatim>\<open>0x3FE6666666666666\<close>, that is
  \<open>6305039478318694 / 2 ^ 53\<close>, the double nearest to \<open>7 / 10\<close>.\<close>

definition float64_0_7 :: nat where
  "float64_0_7 = 6305039478318694"

text \<open>
  \<^verbatim>\<open>float64(len(strs))\<close> is \<open>roundFloat64 n\<close>; the product is the exact product
  rounded, here in units of \<open>1 / 2 ^ 53\<close>; \<^verbatim>\<open>int(...)\<close> truncates. Lines 92-94 raise the
  result to 2.
\<close>

definition thresholdOf :: "nat \<Rightarrow> nat" where
  "thresholdOf n =
     (let threshold = roundFloat64 (roundFloat64 n * float64_0_7) div 2 ^ 53 in
      if threshold < 2 then 2 else threshold)"

text \<open>Lines 106-111, the count of the strings that have \<open>potentialPrefix\<close> as a prefix.\<close>

definition countStep :: "string \<Rightarrow> string \<Rightarrow> nat \<Rightarrow> nat" where
  "countStep potentialPrefix s matchCount =
     (if HasPrefix s potentialPrefix then matchCount + 1 else matchCount)"

definition countMatches :: "string list \<Rightarrow> string \<Rightarrow> nat" where
  "countMatches strs potentialPrefix = fold (countStep potentialPrefix) strs 0"

text \<open>
  Lines 114-137, the body of the inner loop after the count: the state is
  \<open>(bestPrefix, bestMatchCount)\<close>. \<open>trimMajority\<close> is the scan of lines 116-128 with the
  guard of line 130: \<open>finalPrefix\<close> exists only when
  \<^verbatim>\<open>lastSep > 0 && lastSep < len(potentialPrefix)\<close>; otherwise nothing is assigned.
\<close>

definition trimMajority :: "string \<Rightarrow> string option" where
  "trimMajority potentialPrefix =
     (let lastSep = lastSepOf potentialPrefix in
      if lastSep > 0 \<and> lastSep < int (length potentialPrefix)
      then Some (take (nat lastSep) potentialPrefix)
      else None)"

definition tryCandidate :: "string list \<Rightarrow> nat \<Rightarrow> string \<Rightarrow> string \<times> nat \<Rightarrow> string \<times> nat" where
  "tryCandidate strs threshold potentialPrefix best =
     (let matchCount = countMatches strs potentialPrefix in
      if matchCount \<ge> threshold \<and> matchCount > snd best then
        (case trimMajority potentialPrefix of
           None \<Rightarrow> best
         | Some finalPrefix \<Rightarrow>
             if length (TrimSpace finalPrefix) \<ge> 3 then (finalPrefix, matchCount) else best)
      else best)"

text \<open>The inner loop \<^verbatim>\<open>for length := len(sourceFile); length >= 3; length--\<close>.\<close>

function lengthLoop ::
  "string list \<Rightarrow> nat \<Rightarrow> string \<Rightarrow> nat \<Rightarrow> string \<times> nat \<Rightarrow> string \<times> nat" where
  "lengthLoop strs threshold sourceFile len best =
     (if len \<ge> 3 then
        lengthLoop strs threshold sourceFile (len - 1)
          (tryCandidate strs threshold (take len sourceFile) best)
      else best)"
  by pat_completeness auto
termination
  by (relation "measure (\<lambda>(strs, threshold, sourceFile, len, best). len)") auto

declare lengthLoop.simps [simp del]

definition sourceStep :: "string list \<Rightarrow> nat \<Rightarrow> string \<Rightarrow> string \<times> nat \<Rightarrow> string \<times> nat" where
  "sourceStep strs threshold sourceFile best =
     lengthLoop strs threshold sourceFile (length sourceFile) best"

definition findMajorityPrefix :: "string list \<Rightarrow> string" where
  "findMajorityPrefix strs =
     (if length strs < 2 then []
      else fst (fold (sourceStep strs (thresholdOf (length strs))) strs ([], 0)))"

section \<open>processDirectory\<close>

text \<open>The struct \<^verbatim>\<open>RenamePlan\<close> of lines 240-245.\<close>

record RenamePlan =
  OldPath :: string
  NewPath :: string
  OldName :: string
  NewName :: string

text \<open>
  What processDirectory does to the outside, in order: one constructor for each
  \<^verbatim>\<open>fmt.Printf\<close>/\<^verbatim>\<open>fmt.Println\<close> of lines 220-320 with its arguments, and
  \<open>CallRename\<close> for a call of \<^verbatim>\<open>os.Rename\<close>.
\<close>

datatype effect =
    PrintDirectory string
  | PrintPrefixFound string nat
  | PrintFileCount nat nat
  | PrintExample string
  | PrintBlank
  | PrintWarningEmpty string
  | PrintPreviewHeader
  | PrintPreviewEntry string string
  | PrintMore nat
  | PrintPreviewMode
  | PrintPrompt nat
  | PrintSkipped
  | CallRename string string
  | PrintRenameError string string
  | PrintSummary nat nat

text \<open>
  The library and system calls of processDirectory that depend on the platform and on
  the file system are parameters: \<^verbatim>\<open>filepath.Base\<close>, \<^verbatim>\<open>filepath.Join\<close> (of two
  elements), \<^verbatim>\<open>os.Rename\<close> on a file system state \<open>'fs\<close> (\<open>None\<close> for success,
  \<open>Some msg\<close> for an error) and the Unicode part of \<^verbatim>\<open>strings.ToLower\<close>.
\<close>

record 'fs platform =
  Base :: "string \<Rightarrow> string"
  Join :: "string \<Rightarrow> string \<Rightarrow> string"
  Rename :: "string \<Rightarrow> string \<Rightarrow> 'fs \<Rightarrow> string option \<times> 'fs"
  unicodeLower :: "string \<Rightarrow> string"

text \<open>The result of \<^verbatim>\<open>reader.ReadString('\n')\<close> on standard input: the text read
  (with its newline), or an error.\<close>

datatype stdinRead = ReadLine string | ReadFail string

text \<open>Lines 210-218: the prefix used, or \<open>None\<close> where processDirectory returns.\<close>

definition detectPrefix :: "string list \<Rightarrow> string option" where
  "detectPrefix filenames =
     (let pfx = findCommonPrefix filenames in
      if pfx = [] \<or> length (TrimSpace pfx) < 3 then
        (let pfx = findMajorityPrefix filenames in
         if pfx = [] \<or> length (TrimSpace pfx) < 3 then None else Some pfx)
      else Some pfx)"

text \<open>Lines 248-267: one iteration of the loop that builds the plan. The state is the
  plan so far and the output so far.\<close>

definition planStep ::
  "'fs platform \<Rightarrow> string \<Rightarrow> string \<Rightarrow> string \<Rightarrow>
   RenamePlan list \<times> effect list \<Rightarrow> RenamePlan list \<times> effect list" where
  "planStep P dir pfx file st =
     (let oldName = Base P file;
          newName = TrimSpace (TrimPrefix oldName pfx) in
      if newName = [] then (fst st, snd st @ [PrintWarningEmpty oldName])
      else if oldName \<noteq> newName then
        (fst st @ [\<lparr>OldPath = file, NewPath = Join P dir newName,
                    OldName = oldName, NewName = newName\<rparr>], snd st)
      else st)"

definition buildPlan ::
  "'fs platform \<Rightarrow> string \<Rightarrow> string \<Rightarrow> string list \<Rightarrow> RenamePlan list \<times> effect list" where
  "buildPlan P dir pfx files = fold (planStep P dir pfx) files ([], [])"

text \<open>Lines 274-284, the preview.\<close>

definition previewEffects :: "RenamePlan list \<Rightarrow> effect list" where
  "previewEffects plans =
     (let displayCount = (if length plans < 5 then length plans else 5) in
      [PrintPreviewHeader]
      @ map (\<lambda>i. PrintPreviewEntry (OldName (plans ! i)) (NewName (plans ! i))) [0..<displayCount]
      @ (if length plans > displayCount then [PrintMore (length plans - displayCount)] else []))"

text \<open>Lines 300-301, the decision on the line read.\<close>

definition isAffirmative :: "(string \<Rightarrow> string) \<Rightarrow> string \<Rightarrow> bool" where
  "isAffirmative ul response =
     (let response = ToLower ul (TrimSpace response) in
      response = ''y'' \<or> response = ''yes'')"

text \<open>Lines 310-318, the rename loop; the state is \<open>successCount\<close>, the output and the
  file system.\<close>

fun renameLoop ::
  "'fs platform \<Rightarrow> RenamePlan list \<Rightarrow> nat \<Rightarrow> effect list \<Rightarrow> 'fs \<Rightarrow> nat \<times> effect list \<times> 'fs" where
  "renameLoop P [] successCount out fs = (successCount, out, fs)"
| "renameLoop P (plan # plans) successCount out fs =
     (case Rename P (OldPath plan) (NewPath plan) fs of
        (None, fs') \<Rightarrow>
          renameLoop P plans (successCount + 1)
            (out @ [CallRename (OldPath plan) (NewPath plan)]) fs'
      | (Some err, fs') \<Rightarrow>
          renameLoop P plans successCount
            (out @ [CallRename (OldPath plan) (NewPath plan),
                    PrintRenameError (OldName plan) err]) fs')"

text \<open>
  processDirectory returns its error (\<open>None\<close> for \<^verbatim>\<open>nil\<close>), its effects in order and
  the file system it leaves.
\<close>

definition processDirectory ::
  "'fs platform \<Rightarrow> string \<Rightarrow> string list \<Rightarrow> bool \<Rightarrow> bool \<Rightarrow> stdinRead \<Rightarrow> 'fs \<Rightarrow>
   string option \<times> effect list \<times> 'fs" where
  "processDirectory P dir files dryRun autoYes stdin fs =
     (if length files < 2 then (None, [], fs)
      else
        let filenames = map (Base P) files in
        case detectPrefix filenames of
          None \<Rightarrow> (None, [], fs)
        | Some pfx \<Rightarrow>
            let matchCount = countMatches filenames pfx;
                out = [PrintDirectory dir, PrintPrefixFound pfx (length pfx),
                       PrintFileCount (length files) matchCount]
                      @ (if length filenames > 0 then [PrintExample (filenames ! 0)]
                         else [PrintBlank]);
                built = buildPlan P dir pfx files;
                plans = fst built;
                out = out @ snd built in
            if length plans = 0 then (None, out, fs)
            else
              let out = out @ previewEffects plans in
              if dryRun then (None, out @ [PrintPreviewMode], fs)
              else
                case (if \<not> autoYes then
                        (case stdin of
                           ReadFail err \<Rightarrow> Inl (err, out @ [PrintPrompt (length plans)])
                         | ReadLine response \<Rightarrow>
                             Inr (isAffirmative (unicodeLower P) response,
                                  out @ [PrintPrompt (length plans)]))
                      else Inr (autoYes, out)) of
                  Inl (err, out) \<Rightarrow> (Some err, out, fs)
                | Inr (proceed, out) \<Rightarrow>
                    if \<not> proceed then (None, out @ [PrintSkipped], fs)
                    else
                      (case renameLoop P plans 0 out fs of
                         (successCount, out, fs') \<Rightarrow>
                           (None, out @ [PrintSummary successCount (length plans)], fs')))"

section \<open>A Unix platform, for evaluating processDirectory on concrete inputs\<close>

text \<open>\<^verbatim>\<open>filepath.Base\<close> with separator \<^verbatim>\<open>/\<close>: the empty path gives \<^verbatim>\<open>.\<close>, trailing
  slashes are dropped, the last element is returned, and a path of slashes only gives
  \<^verbatim>\<open>/\<close>.\<close>

definition unixBase :: "string \<Rightarrow> string" where
  "unixBase path =
     (if path = [] then ''.''
      else
        let p = rev (dropWhile (\<lambda>c. c = CHR ''/'') (rev path));
            e = rev (takeWhile (\<lambda>c. c \<noteq> CHR ''/'') (rev p)) in
        if e = [] then ''/'' else e)"

text \<open>\<^verbatim>\<open>filepath.Clean\<close> with separator \<^verbatim>\<open>/\<close>, element by element: empty elements
  and \<^verbatim>\<open>.\<close> are dropped; \<^verbatim>\<open>..\<close> removes the element before it, is dropped at the
  root, and is kept at the start of a relative path.\<close>

fun splitSlash :: "string \<Rightarrow> string list" where
  "splitSlash [] = [[]]"
| "splitSlash (c # cs) =
     (if c = CHR ''/'' then [] # splitSlash cs
      else (case splitSlash cs of [] \<Rightarrow> [[c]] | x # xs \<Rightarrow> (c # x) # xs))"

definition cleanStep :: "bool \<Rightarrow> string \<Rightarrow> string list \<Rightarrow> string list" where
  "cleanStep rooted c st =
     (if c = [] \<or> c = ''.'' then st
      else if c = ''..'' then
        (case st of
           [] \<Rightarrow> (if rooted then [] else [''..''])
         | t # ts \<Rightarrow> (if t = ''..'' then ''..'' # st else ts))
      else c # st)"

fun joinSlash :: "string list \<Rightarrow> string" where
  "joinSlash [] = []"
| "joinSlash [x] = x"
| "joinSlash (x # y # ys) = x @ ''/'' @ joinSlash (y # ys)"

definition unixClean :: "string \<Rightarrow> string" where
  "unixClean path =
     (if path = [] then ''.''
      else
        let rooted = (path ! 0 = CHR ''/'');
            body = joinSlash (rev (fold (cleanStep rooted) (splitSlash path) [])) in
        if rooted then ''/'' @ body
        else if body = [] then ''.'' else body)"

text \<open>\<^verbatim>\<open>filepath.Join(dir, name)\<close>: the non-empty elements joined by \<^verbatim>\<open>/\<close> and
  cleaned.\<close>

definition unixJoin :: "string \<Rightarrow> string \<Rightarrow> string" where
  "unixJoin dir name =
     (if dir \<noteq> [] then unixClean (dir @ ''/'' @ name)
      else if name \<noteq> [] then unixClean name
      else [])"

text \<open>A file system that is the list of the paths that exist: renaming a path that
  exists replaces it (and any file at the target); renaming a missing path is an error.\<close>

definition listRename :: "string \<Rightarrow> string \<Rightarrow> string list \<Rightarrow> string option \<times> string list" where
  "listRename old new fs =
     (if List.member fs old then (None, new # removeAll new (removeAll old fs))
      else (Some ''no such file or directory'', fs))"

definition unixPlatform :: "string list platform" where
  "unixPlatform =
     \<lparr>Base = unixBase, Join = unixJoin, Rename = listRename, unicodeLower = (\<lambda>s. s)\<rparr>"

section \<open>Notions used in the statements\<close>

text \<open>The raw candidate of findCommonPrefix, \<^verbatim>\<open>strs[0][:prefixLen]\<close> (line 58).\<close>

definition rawPrefix :: "string list \<Rightarrow> string" where
  "rawPrefix strs = take (prefixLenLoop strs (minLenOf strs) 0 0) (strs ! 0)"

text \<open>Position \<open>i\<close> of \<open>p\<close> holds a separator: one of the five bytes, or the last byte
  of the sequence \<open>0xE3 0x80 0x91\<close>.\<close>

definition sepAt :: "string \<Rightarrow> nat \<Rightarrow> bool" where
  "sepAt p i = (isSepByte (p ! i) \<or>
      (i \<ge> 2 \<and> p ! (i - 2) = CHR 0xE3 \<and> p ! (i - 1) = CHR 0x80 \<and> p ! i = CHR 0x91))"

text \<open>A string ends in a separator: its last byte is one of \<^verbatim>\<open>- _ ) ]\<close> or a space, or
  it ends with the bytes \<open>0xE3 0x80 0x91\<close>.\<close>

definition endsInSeparator :: "string \<Rightarrow> bool" where
  "endsInSeparator r =
     (r \<noteq> [] \<and>
      (last r = CHR ''-'' \<or> last r = CHR ''_'' \<or> last r = CHR '' '' \<or> last r = CHR '')'' \<or>
       last r = CHR '']'' \<or> suffix [CHR 0xE3, CHR 0x80, CHR 0x91] r))"

text \<open>The invariant of the two loops of findMajorityPrefix on \<open>(bestPrefix, bestMatchCount)\<close>.\<close>

definition goodBest :: "string list \<Rightarrow> string \<times> nat \<Rightarrow> bool" where
  "goodBest strs best =
     (fst best = [] \<or>
      (endsInSeparator (fst best) \<and> (\<exists>s\<in>set strs. strict_prefix (fst best) s) \<and>
       3 \<le> length (TrimSpace (fst best))))"

text \<open>The new name the planner computes for a file: the prefix stripped from the start
  of its base name, the result trimmed of surrounding white space.\<close>

definition strippedName :: "'fs platform \<Rightarrow> string \<Rightarrow> string \<Rightarrow> string" where
  "strippedName P pfx file = TrimSpace (TrimPrefix (Base P file) pfx)"

text \<open>The plan entry of a file that is renamed.\<close>

definition entryOf :: "'fs platform \<Rightarrow> string \<Rightarrow> string \<Rightarrow> string \<Rightarrow> RenamePlan" where
  "entryOf P dir pfx file =
     \<lparr>OldPath = file, NewPath = Join P dir (strippedName P pfx file),
      OldName = Base P file, NewName = strippedName P pfx file\<rparr>"

text \<open>The calls of \<^verbatim>\<open>os.Rename\<close> among the effects, in order.\<close>

fun renameCalls :: "effect list \<Rightarrow> (string \<times> string) list" where
  "renameCalls [] = []"
| "renameCalls (CallRename old new # es) = (old, new) # renameCalls es"
| "renameCalls (e # es) = renameCalls es"

text \<open>The four lines printed at lines 220-237 once a prefix is found.\<close>

definition headerEffects :: "'fs platform \<Rightarrow> string \<Rightarrow> string list \<Rightarrow> string \<Rightarrow> effect list" where
  "headerEffects P dir files pfx =
     [PrintDirectory dir, PrintPrefixFound pfx (length pfx),
      PrintFileCount (length files) (countMatches (map (Base P) files) pfx),
      PrintExample (Base P (files ! 0))]"

text \<open>Ninety filenames of which exactly 62 start with \<^verbatim>\<open>ab-c\<close>.\<close>

definition ninetyFiles :: "string list" where
  "ninetyFiles =
   [''ab-c00'', ''ab-c01'', ''ab-c02'', ''ab-c03'', ''ab-c04'', ''ab-c05'', ''ab-c06'', ''ab-c07'',
    ''ab-c08'', ''ab-c09'', ''ab-c10'', ''ab-c11'', ''ab-c12'', ''ab-c13'', ''ab-c14'', ''ab-c15'',
    ''ab-c16'', ''ab-c17'', ''ab-c18'', ''ab-c19'', ''ab-c20'', ''ab-c21'', ''ab-c22'', ''ab-c23'',
    ''ab-c24'', ''ab-c25'', ''ab-c26'', ''ab-c27'', ''ab-c28'', ''ab-c29'', ''ab-c30'', ''ab-c31'',
    ''ab-c32'', ''ab-c33'', ''ab-c34'', ''ab-c35'', ''ab-c36'', ''ab-c37'', ''ab-c38'', ''ab-c39'',
    ''ab-c40'', ''ab-c41'', ''ab-c42'', ''ab-c43'', ''ab-c44'', ''ab-c45'', ''ab-c46'', ''ab-c47'',
    ''ab-c48'', ''ab-c49'', ''ab-c50'', ''ab-c51'', ''ab-c52'', ''ab-c53'', ''ab-c54'', ''ab-c55'',
    ''ab-c56'', ''ab-c57'', ''ab-c58'', ''ab-c59'', ''ab-c60'', ''ab-c61'', ''z00'', ''z01'',
    ''z02'', ''z03'', ''z04'', ''z05'', ''z06'', ''z07'', ''z08'', ''z09'',
    ''z10'', ''z11'', ''z12'', ''z13'', ''z14'', ''z15'', ''z16'', ''z17'',
    ''z18'', ''z19'', ''z20'', ''z21'', ''z22'', ''z23'', ''z24'', ''z25'',
    ''z26'', ''z27'']"

section \<open>Lemmas on the helpers and the loops\<close>

lemma float64_0_7_nearest:
  "2 ^ 52 \<le> float64_0_7 \<and> float64_0_7 < 2 ^ 53 \<and> 10 * float64_0_7 + 4 = 7 * 2 ^ 53"
  by (simp add: float64_0_7_def)

lemma HasPrefix_iff: "HasPrefix s p = prefix p s"
  by (auto simp: HasPrefix_def prefix_def take_all_iff dest: arg_cong [where f = length])
     (metis append_eq_conv_conj append_take_drop_id)

lemma fold_countStep: "fold (countStep p) strs n = n + length (filter (\<lambda>s. prefix p s) strs)"
  by (induction strs arbitrary: n) (auto simp: countStep_def HasPrefix_iff)

lemma countMatches_eq: "countMatches strs p = length (filter (\<lambda>s. prefix p s) strs)"
  by (simp add: countMatches_def fold_countStep)

lemma scanSep_Suc: "scanSep p (Suc i) = (if sepAt p i then int i + 1 else scanSep p i)"
  by (auto simp: sepAt_def)

lemma scanSep_none: "(\<forall>i<n. \<not> sepAt p i) \<Longrightarrow> scanSep p n = - 1"
  by (induction n) (auto simp: scanSep_Suc simp del: scanSep.simps(2))

lemma scanSep_found:
  "j < n \<Longrightarrow> sepAt p j \<Longrightarrow> (\<forall>i. j < i \<and> i < n \<longrightarrow> \<not> sepAt p i) \<Longrightarrow> scanSep p n = int j + 1"
proof (induction n)
  case 0
  then show ?case by simp
next
  case (Suc n)
  show ?case
  proof (cases "j = n")
    case True
    with Suc.prems show ?thesis by (simp add: scanSep_Suc del: scanSep.simps(2))
  next
    case False
    with Suc.prems have "j < n" "\<not> sepAt p n" by auto
    with Suc show ?thesis by (simp add: scanSep_Suc del: scanSep.simps(2))
  qed
qed

lemma scanSep_cases:
  "(scanSep p n = - 1 \<and> (\<forall>i<n. \<not> sepAt p i)) \<or>
   (\<exists>j<n. scanSep p n = int j + 1 \<and> sepAt p j \<and> (\<forall>i. j < i \<and> i < n \<longrightarrow> \<not> sepAt p i))"
proof (induction n)
  case 0
  then show ?case by simp
next
  case (Suc n)
  show ?case
  proof (cases "sepAt p n")
    case True
    then have "scanSep p (Suc n) = int n + 1" by (simp add: scanSep_Suc del: scanSep.simps(2))
    with True show ?thesis by (intro disjI2 exI [of _ n]) auto
  next
    case False
    then have eq: "scanSep p (Suc n) = scanSep p n" by (simp add: scanSep_Suc del: scanSep.simps(2))
    from Suc show ?thesis
    proof
      assume "scanSep p n = - 1 \<and> (\<forall>i<n. \<not> sepAt p i)"
      with False eq show ?thesis by (auto simp: less_Suc_eq simp del: scanSep.simps(2))
    next
      assume "\<exists>j<n. scanSep p n = int j + 1 \<and> sepAt p j \<and> (\<forall>i. j < i \<and> i < n \<longrightarrow> \<not> sepAt p i)"
      then obtain j where "j < n" "scanSep p n = int j + 1" "sepAt p j"
        "\<forall>i. j < i \<and> i < n \<longrightarrow> \<not> sepAt p i" by blast
      with False eq show ?thesis
        by (intro disjI2 exI [of _ j]) (auto simp: less_Suc_eq simp del: scanSep.simps(2))
    qed
  qed
qed

lemma allMatch_iff: "allMatch strs i c = (\<forall>s\<in>set strs. s ! i = c)"
  by (induction strs) auto

lemma minLenStep_le: "minLenStep a m \<le> m" "minLenStep a m \<le> length a"
  by (simp_all add: minLenStep_def)

lemma minLenStep_cases: "minLenStep a m = m \<or> minLenStep a m = length a"
  by (simp add: minLenStep_def)

lemma fold_minLenStep_le: "fold minLenStep strs m \<le> m"
proof (induction strs arbitrary: m)
  case Nil
  then show ?case by simp
next
  case (Cons a strs)
  have "fold minLenStep strs (minLenStep a m) \<le> minLenStep a m" by (rule Cons.IH)
  also have "\<dots> \<le> m" by (rule minLenStep_le)
  finally show ?case by simp
qed

lemma fold_minLenStep_lower: "s \<in> set strs \<Longrightarrow> fold minLenStep strs m \<le> length s"
proof (induction strs arbitrary: m)
  case Nil
  then show ?case by simp
next
  case (Cons a strs)
  show ?case
  proof (cases "s = a")
    case True
    have "fold minLenStep strs (minLenStep a m) \<le> minLenStep a m" by (rule fold_minLenStep_le)
    also have "\<dots> \<le> length a" by (rule minLenStep_le)
    finally show ?thesis using True by simp
  next
    case False
    with Cons.prems have "s \<in> set strs" by simp
    then show ?thesis using Cons.IH by simp
  qed
qed

lemma fold_minLenStep_mem: "fold minLenStep strs m \<in> insert m (length ` set strs)"
proof (induction strs arbitrary: m)
  case Nil
  then show ?case by simp
next
  case (Cons a strs)
  have "fold minLenStep strs (minLenStep a m) \<in> insert (minLenStep a m) (length ` set strs)"
    by (rule Cons.IH)
  with minLenStep_cases [of a m] show ?case by auto
qed

lemma minLenOf_le: "s \<in> set strs \<Longrightarrow> minLenOf strs \<le> length s"
  by (simp add: minLenOf_def fold_minLenStep_lower)

lemma minLenOf_mem: "strs \<noteq> [] \<Longrightarrow> minLenOf strs \<in> length ` set strs"
proof -
  assume ne: "strs \<noteq> []"
  then have "strs ! 0 \<in> set strs" by simp
  then have "length (strs ! 0) \<in> length ` set strs" by (rule imageI)
  with fold_minLenStep_mem [of strs "length (strs ! 0)"] show ?thesis
    by (auto simp: minLenOf_def)
qed

lemma minLenOf_Min: "strs \<noteq> [] \<Longrightarrow> minLenOf strs = Min (length ` set strs)"
  by (rule sym, rule Min_eqI) (auto simp: minLenOf_le minLenOf_mem)

lemma prefixLenLoop_spec:
  "i \<le> m \<Longrightarrow>
   i \<le> prefixLenLoop strs m i i \<and> prefixLenLoop strs m i i \<le> m \<and>
   (\<forall>j. i \<le> j \<and> j < prefixLenLoop strs m i i \<longrightarrow> allMatch strs j ((strs ! 0) ! j)) \<and>
   (prefixLenLoop strs m i i < m \<longrightarrow>
      \<not> allMatch strs (prefixLenLoop strs m i i) ((strs ! 0) ! (prefixLenLoop strs m i i)))"
proof (induction "m - i" arbitrary: i)
  case 0
  then have "i = m" by simp
  then have "prefixLenLoop strs m i i = i" by (simp add: prefixLenLoop.simps)
  with \<open>i = m\<close> show ?case by auto
next
  case (Suc d)
  then have lt: "i < m" by simp
  show ?case
  proof (cases "allMatch strs i ((strs ! 0) ! i)")
    case False
    with lt have "prefixLenLoop strs m i i = i" by (simp add: prefixLenLoop.simps)
    with False lt show ?thesis by auto
  next
    case True
    with lt have eq: "prefixLenLoop strs m i i = prefixLenLoop strs m (Suc i) (Suc i)"
      by (subst prefixLenLoop.simps) simp
    from Suc lt have "d = m - Suc i" "Suc i \<le> m" by simp_all
    from Suc.hyps(1) [OF this]
    have IH: "Suc i \<le> prefixLenLoop strs m (Suc i) (Suc i)"
      "prefixLenLoop strs m (Suc i) (Suc i) \<le> m"
      "\<forall>j. Suc i \<le> j \<and> j < prefixLenLoop strs m (Suc i) (Suc i) \<longrightarrow>
           allMatch strs j ((strs ! 0) ! j)"
      "prefixLenLoop strs m (Suc i) (Suc i) < m \<longrightarrow>
         \<not> allMatch strs (prefixLenLoop strs m (Suc i) (Suc i))
             ((strs ! 0) ! (prefixLenLoop strs m (Suc i) (Suc i)))"
      by blast+
    have "allMatch strs j ((strs ! 0) ! j)"
      if "i \<le> j" "j < prefixLenLoop strs m (Suc i) (Suc i)" for j
    proof (cases "j = i")
      case True
      with \<open>allMatch strs i ((strs ! 0) ! i)\<close> show ?thesis by simp
    next
      case False
      with that have "Suc i \<le> j" by simp
      with IH(3) that show ?thesis by blast
    qed
    with IH show ?thesis unfolding eq by auto
  qed
qed

lemma rawPrefix_common:
  assumes "s \<in> set strs"
  shows "prefix (rawPrefix strs) s"
proof -
  let ?k = "prefixLenLoop strs (minLenOf strs) 0 0"
  from prefixLenLoop_spec [of 0 "minLenOf strs" strs]
  have k: "?k \<le> minLenOf strs" and m: "\<forall>j<?k. allMatch strs j ((strs ! 0) ! j)" by auto
  from assms have s0: "strs ! 0 \<in> set strs" by (cases strs) auto
  have ks: "?k \<le> length s" using k minLenOf_le [OF assms] by simp
  have k0: "?k \<le> length (strs ! 0)" using k minLenOf_le [OF s0] by simp
  have "take ?k s = take ?k (strs ! 0)"
  proof (rule nth_equalityI)
    show "length (take ?k s) = length (take ?k (strs ! 0))" using ks k0 by simp
  next
    fix j assume "j < length (take ?k s)"
    then have "j < ?k" by simp
    with m assms have "s ! j = (strs ! 0) ! j" by (auto simp: allMatch_iff)
    with \<open>j < ?k\<close> show "take ?k s ! j = take ?k (strs ! 0) ! j" by simp
  qed
  then have "rawPrefix strs = take ?k s" by (simp add: rawPrefix_def)
  then show ?thesis by (simp add: take_is_prefix)
qed

lemma rawPrefix_longest:
  assumes ne: "strs \<noteq> []" and q: "\<forall>s\<in>set strs. prefix q s"
  shows "prefix q (rawPrefix strs)"
proof -
  let ?k = "prefixLenLoop strs (minLenOf strs) 0 0"
  from prefixLenLoop_spec [of 0 "minLenOf strs" strs]
  have stop: "?k < minLenOf strs \<Longrightarrow> \<not> allMatch strs ?k ((strs ! 0) ! ?k)" by auto
  from ne have s0: "strs ! 0 \<in> set strs" by simp
  from minLenOf_mem [OF ne] obtain t where t: "t \<in> set strs" "minLenOf strs = length t" by auto
  with q have qm: "length q \<le> minLenOf strs" by (auto dest: prefix_length_le)
  have "length q \<le> ?k"
  proof (rule ccontr)
    assume "\<not> length q \<le> ?k"
    then have lt: "?k < length q" by simp
    with qm have "?k < minLenOf strs" by simp
    from stop [OF this] obtain s where s: "s \<in> set strs" "s ! ?k \<noteq> (strs ! 0) ! ?k"
      by (auto simp: allMatch_iff)
    from q s lt have "s ! ?k = q ! ?k" by (auto simp: prefix_def nth_append)
    moreover from q s0 lt have "(strs ! 0) ! ?k = q ! ?k" by (auto simp: prefix_def nth_append)
    ultimately show False using s by simp
  qed
  moreover from q s0 have "prefix q (strs ! 0)" by blast
  ultimately show ?thesis
    by (auto simp: rawPrefix_def prefix_def)
qed

lemma lastSepOf_cases:
  "(lastSepOf p = - 1 \<and> (\<forall>i<length p. \<not> sepAt p i)) \<or>
   (\<exists>j<length p. lastSepOf p = int j + 1 \<and> sepAt p j \<and>
        (\<forall>i. j < i \<and> i < length p \<longrightarrow> \<not> sepAt p i))"
  unfolding lastSepOf_def by (rule scanSep_cases)

lemma trimCommon_no_sep: "(\<forall>i<length p. \<not> sepAt p i) \<Longrightarrow> trimCommon p = p"
  by (simp add: trimCommon_def lastSepOf_def scanSep_none)

lemma trimCommon_sep:
  assumes "j < length p" "sepAt p j" "\<forall>i. j < i \<and> i < length p \<longrightarrow> \<not> sepAt p i"
  shows "trimCommon p = take (Suc j) p"
proof -
  from assms have "lastSepOf p = int j + 1"
    unfolding lastSepOf_def by (rule scanSep_found)
  with assms(1) show ?thesis by (auto simp: trimCommon_def Let_def nat_add_distrib)
qed

lemma trimCommon_prefix: "prefix (trimCommon p) p"
  by (simp add: trimCommon_def Let_def take_is_prefix)

lemma rawPrefix_Nil: "prefixLenLoop strs (minLenOf strs) 0 0 = 0 \<Longrightarrow> rawPrefix strs = []"
  by (simp add: rawPrefix_def)

lemma trimCommon_Nil: "trimCommon [] = []"
  by (simp add: trimCommon_def Let_def)

lemma findCommonPrefix_eq:
  "2 \<le> length strs \<Longrightarrow> findCommonPrefix strs = trimCommon (rawPrefix strs)"
  by (auto simp: findCommonPrefix_def Let_def rawPrefix_def trimCommon_Nil)


lemma trimMajority_cases:
  "(trimMajority p = None \<and> (lastSepOf p = - 1 \<or> lastSepOf p = int (length p))) \<or>
   (\<exists>j. Suc j < length p \<and> trimMajority p = Some (take (Suc j) p) \<and> sepAt p j \<and>
        lastSepOf p = int j + 1)"
  using lastSepOf_cases [of p]
  by (auto simp: trimMajority_def Let_def nat_add_distrib)

lemma sepAt_endsInSeparator:
  assumes "j < length p" "sepAt p j"
  shows "endsInSeparator (take (Suc j) p)"
proof -
  from assms(1) have t: "take (Suc j) p = take j p @ [p ! j]"
    by (simp add: take_Suc_conv_app_nth)
  from assms(2) consider "isSepByte (p ! j)"
    | "j \<ge> 2" "p ! (j - 2) = CHR 0xE3" "p ! (j - 1) = CHR 0x80" "p ! j = CHR 0x91"
    by (auto simp: sepAt_def)
  then show ?thesis
  proof cases
    case 1
    then show ?thesis by (auto simp: endsInSeparator_def t isSepByte_def)
  next
    case 2
    then obtain k where k: "j = Suc (Suc k)" by (metis Suc_le_D numeral_2_eq_2 Suc_le_mono)
    with assms(1) have "take (Suc j) p = take k p @ [p ! k, p ! Suc k, p ! Suc (Suc k)]"
      by (simp add: take_Suc_conv_app_nth)
    with 2 k show ?thesis by (simp add: endsInSeparator_def suffix_def)
  qed
qed

lemma tryCandidate_cases:
  "tryCandidate strs th p best = best \<or>
   (\<exists>j. Suc j < length p \<and> sepAt p j \<and> lastSepOf p = int j + 1 \<and>
        3 \<le> length (TrimSpace (take (Suc j) p)) \<and>
        th \<le> countMatches strs p \<and> snd best < countMatches strs p \<and>
        tryCandidate strs th p best = (take (Suc j) p, countMatches strs p))"
  using trimMajority_cases [of p]
  by (auto simp: tryCandidate_def Let_def)

lemma tryCandidate_good:
  assumes "goodBest strs best" "src \<in> set strs" "len \<le> length src"
  shows "goodBest strs (tryCandidate strs th (take len src) best)"
proof -
  let ?p = "take len src"
  from tryCandidate_cases [of strs th ?p best] show ?thesis
  proof
    assume "tryCandidate strs th ?p best = best"
    with assms(1) show ?thesis by simp
  next
    assume "\<exists>j. Suc j < length ?p \<and> sepAt ?p j \<and> lastSepOf ?p = int j + 1 \<and>
        3 \<le> length (TrimSpace (take (Suc j) ?p)) \<and>
        th \<le> countMatches strs ?p \<and> snd best < countMatches strs ?p \<and>
        tryCandidate strs th ?p best = (take (Suc j) ?p, countMatches strs ?p)"
    then obtain j where j: "Suc j < length ?p" "sepAt ?p j"
      "3 \<le> length (TrimSpace (take (Suc j) ?p))"
      "tryCandidate strs th ?p best = (take (Suc j) ?p, countMatches strs ?p)" by blast
    from j(1) have "j < length ?p" by simp
    then have e: "endsInSeparator (take (Suc j) ?p)" using j(2) by (rule sepAt_endsInSeparator)
    from j(1) assms(3) have lt: "Suc j < length src" "Suc j \<le> len" by simp_all
    then have tk: "take (Suc j) ?p = take (Suc j) src" by (simp add: min_def)
    have "prefix (take (Suc j) src) src" by (rule take_is_prefix)
    moreover from lt(1) have "take (Suc j) src \<noteq> src"
      by (metis length_take min.absorb2 less_imp_le_nat nat_neq_iff)
    ultimately have "strict_prefix (take (Suc j) ?p) src" unfolding tk by (rule strict_prefixI)
    with assms(2) e j(3,4) show ?thesis by (auto simp: goodBest_def)
  qed
qed

lemma lengthLoop_good:
  "goodBest strs best \<Longrightarrow> src \<in> set strs \<Longrightarrow> len \<le> length src \<Longrightarrow>
   goodBest strs (lengthLoop strs th src len best)"
proof (induction strs th src len best rule: lengthLoop.induct)
  case (1 strs threshold sourceFile len best)
  show ?case
  proof (cases "len \<ge> 3")
    case False
    with 1 show ?thesis by (simp add: lengthLoop.simps)
  next
    case True
    have "goodBest strs (tryCandidate strs threshold (take len sourceFile) best)"
      using 1(2,3,4) by (rule tryCandidate_good)
    from 1(1) [OF True this 1(3)] 1(4) True show ?thesis
      by (subst lengthLoop.simps) simp
  qed
qed

lemma fold_sourceStep_good:
  "set srcs \<subseteq> set strs \<Longrightarrow> goodBest strs best \<Longrightarrow>
   goodBest strs (fold (sourceStep strs th) srcs best)"
proof (induction srcs arbitrary: best)
  case Nil
  then show ?case by simp
next
  case (Cons a srcs)
  then have "goodBest strs (sourceStep strs th a best)"
    by (simp add: sourceStep_def lengthLoop_good)
  with Cons show ?case by simp
qed

lemma tryCandidate_below:
  "countMatches strs p < th \<Longrightarrow> tryCandidate strs th p best = best"
  by (simp add: tryCandidate_def Let_def)

lemma lengthLoop_below:
  "(\<forall>l. 3 \<le> l \<and> l \<le> len \<longrightarrow> countMatches strs (take l src) < th) \<Longrightarrow>
   lengthLoop strs th src len best = best"
proof (induction strs th src len best rule: lengthLoop.induct)
  case (1 strs threshold sourceFile len best)
  show ?case
  proof (cases "len \<ge> 3")
    case False
    then show ?thesis by (simp add: lengthLoop.simps)
  next
    case True
    with 1(2) have c: "countMatches strs (take len sourceFile) < threshold" by simp
    have t: "tryCandidate strs threshold (take len sourceFile) best = best"
      using c by (rule tryCandidate_below)
    from 1(2) have "\<forall>l. 3 \<le> l \<and> l \<le> len - 1 \<longrightarrow> countMatches strs (take l sourceFile) < threshold"
      by auto
    from 1(1) [OF True this] True t show ?thesis
      by (subst lengthLoop.simps) simp
  qed
qed

lemma fold_sourceStep_below:
  "(\<forall>src\<in>set srcs. \<forall>l. 3 \<le> l \<and> l \<le> length src \<longrightarrow> countMatches strs (take l src) < th) \<Longrightarrow>
   fold (sourceStep strs th) srcs best = best"
  by (induction srcs) (simp_all add: sourceStep_def lengthLoop_below)

lemma findMajorityPrefix_below:
  "(\<forall>src\<in>set strs. \<forall>l. 3 \<le> l \<and> l \<le> length src \<longrightarrow>
       countMatches strs (take l src) < thresholdOf (length strs)) \<Longrightarrow>
   findMajorityPrefix strs = []"
  by (simp add: findMajorityPrefix_def fold_sourceStep_below)

lemma thresholdOf_3: "thresholdOf 3 = 2"
  by (simp add: thresholdOf_def roundFloat64_def float64_0_7_def bitLength.simps Let_def)

lemma three_distinct_below:
  assumes len: "length strs = 3"
    and dist: "\<forall>i<3. \<forall>j<3. i \<noteq> j \<longrightarrow>
       \<not> (\<exists>p. 3 \<le> length p \<and> prefix p (strs ! i) \<and> prefix p (strs ! j))"
    and l: "3 \<le> length p"
  shows "countMatches strs p < 2"
proof -
  from len obtain a b c where s: "strs = [a, b, c]"
    by (metis length_0_conv length_Suc_conv numeral_3_eq_3)
  from dist [rule_format, of 0 1] l s have ab: "\<not> (prefix p a \<and> prefix p b)" by auto
  from dist [rule_format, of 0 2] l s have ac: "\<not> (prefix p a \<and> prefix p c)" by auto
  from dist [rule_format, of 1 2] l s have bc: "\<not> (prefix p b \<and> prefix p c)" by auto
  from ab ac bc show ?thesis by (auto simp: countMatches_eq s)
qed

lemma no_shared_prefix:
  "x \<noteq> y \<Longrightarrow> \<not> (\<exists>p. 3 \<le> length p \<and> prefix p (x # xs) \<and> prefix p (y # ys))"
  by (auto simp: prefix_Cons)



lemma planStep_eq:
  "planStep P dir pfx file st =
     (if strippedName P pfx file = [] then (fst st, snd st @ [PrintWarningEmpty (Base P file)])
      else if strippedName P pfx file \<noteq> Base P file then (fst st @ [entryOf P dir pfx file], snd st)
      else st)"
  by (auto simp: planStep_def strippedName_def entryOf_def Let_def)

lemma fold_planStep:
  "fold (planStep P dir pfx) files st =
     (fst st @ map (entryOf P dir pfx)
                (filter (\<lambda>f. strippedName P pfx f \<noteq> [] \<and> strippedName P pfx f \<noteq> Base P f) files),
      snd st @ map (\<lambda>f. PrintWarningEmpty (Base P f))
                (filter (\<lambda>f. strippedName P pfx f = []) files))"
proof (induction files arbitrary: st)
  case Nil
  then show ?case by simp
next
  case (Cons f files)
  have "fold (planStep P dir pfx) (f # files) st =
        fold (planStep P dir pfx) files (planStep P dir pfx f st)" by simp
  also note Cons.IH
  finally have e: "fold (planStep P dir pfx) (f # files) st =
     (fst (planStep P dir pfx f st) @ map (entryOf P dir pfx)
                (filter (\<lambda>f. strippedName P pfx f \<noteq> [] \<and> strippedName P pfx f \<noteq> Base P f) files),
      snd (planStep P dir pfx f st) @ map (\<lambda>f. PrintWarningEmpty (Base P f))
                (filter (\<lambda>f. strippedName P pfx f = []) files))" .
  show ?case unfolding e
    by (cases "strippedName P pfx f = []"; cases "strippedName P pfx f = Base P f")
       (simp_all add: planStep_eq)
qed

lemma buildPlan_eq:
  "buildPlan P dir pfx files =
     (map (entryOf P dir pfx)
        (filter (\<lambda>f. strippedName P pfx f \<noteq> [] \<and> strippedName P pfx f \<noteq> Base P f) files),
      map (\<lambda>f. PrintWarningEmpty (Base P f)) (filter (\<lambda>f. strippedName P pfx f = []) files))"
  by (simp add: buildPlan_def fold_planStep)

lemma renameCalls_append: "renameCalls (xs @ ys) = renameCalls xs @ renameCalls ys"
  by (induction xs rule: renameCalls.induct) simp_all

lemma renameCalls_warnings: "renameCalls (map (\<lambda>f. PrintWarningEmpty (g f)) fs) = []"
  by (induction fs) simp_all

lemma renameCalls_entries:
  "renameCalls (map (\<lambda>i. PrintPreviewEntry (g i) (h i)) is) = []"
  by (induction "is") simp_all

lemma renameCalls_preview: "renameCalls (previewEffects plans) = []"
  by (simp add: previewEffects_def Let_def renameCalls_append renameCalls_entries)

lemma renameLoop_out:
  "\<exists>ext. fst (snd (renameLoop P plans n out fs)) = out @ ext \<and>
         renameCalls ext = map (\<lambda>e. (OldPath e, NewPath e)) plans"
proof (induction plans arbitrary: n out fs)
  case Nil
  then show ?case by simp
next
  case (Cons plan plans)
  obtain r fs1 where r: "Rename P (OldPath plan) (NewPath plan) fs = (r, fs1)"
    by (cases "Rename P (OldPath plan) (NewPath plan) fs")
  show ?case
  proof (cases r)
    case None
    from Cons.IH [of "n + 1" "out @ [CallRename (OldPath plan) (NewPath plan)]" fs1]
    obtain ext where
      "fst (snd (renameLoop P plans (n + 1) (out @ [CallRename (OldPath plan) (NewPath plan)]) fs1))
         = (out @ [CallRename (OldPath plan) (NewPath plan)]) @ ext"
      "renameCalls ext = map (\<lambda>e. (OldPath e, NewPath e)) plans" by blast
    with r None show ?thesis
      by (intro exI [of _ "CallRename (OldPath plan) (NewPath plan) # ext"]) simp
  next
    case (Some msg)
    from Cons.IH [of n "out @ [CallRename (OldPath plan) (NewPath plan),
                    PrintRenameError (OldName plan) msg]" fs1]
    obtain ext where
      "fst (snd (renameLoop P plans n (out @ [CallRename (OldPath plan) (NewPath plan),
                    PrintRenameError (OldName plan) msg]) fs1))
         = (out @ [CallRename (OldPath plan) (NewPath plan),
                    PrintRenameError (OldName plan) msg]) @ ext"
      "renameCalls ext = map (\<lambda>e. (OldPath e, NewPath e)) plans" by blast
    with r Some show ?thesis
      by (intro exI [of _ "CallRename (OldPath plan) (NewPath plan) #
             PrintRenameError (OldName plan) msg # ext"]) simp
  qed
qed

lemma processDirectory_interactive:
  assumes "2 \<le> length files" "detectPrefix (map (Base P) files) = Some pfx"
  shows "processDirectory P dir files False False (ReadLine response) fs =
     (let plans = fst (buildPlan P dir pfx files);
          out = headerEffects P dir files pfx @ snd (buildPlan P dir pfx files) in
      if plans = [] then (None, out, fs)
      else if \<not> isAffirmative (unicodeLower P) response
        then (None, out @ previewEffects plans @ [PrintPrompt (length plans), PrintSkipped], fs)
      else (case renameLoop P plans 0 (out @ previewEffects plans @ [PrintPrompt (length plans)]) fs of
              (successCount, out', fs') \<Rightarrow>
                (None, out' @ [PrintSummary successCount (length plans)], fs')))"
proof -
  from assms(1) have "files \<noteq> []" "\<not> length files < 2" by auto
  with assms(2) show ?thesis
    by (simp add: processDirectory_def Let_def headerEffects_def)
qed

lemma processDirectory_none:
  "length files < 2 \<or> detectPrefix (map (Base P) files) = None \<Longrightarrow>
   processDirectory P dir files dryRun autoYes stdin fs = (None, [], fs)"
  by (auto simp: processDirectory_def Let_def)

lemma renameCalls_header: "renameCalls (headerEffects P dir files pfx) = []"
  by (simp add: headerEffects_def)

lemma renameCalls_built: "renameCalls (snd (buildPlan P dir pfx files)) = []"
  by (simp add: buildPlan_eq renameCalls_warnings)

lemma processDirectory_effects:
  assumes "2 \<le> length files" "detectPrefix (map (Base P) files) = Some pfx"
  shows "\<exists>post. fst (snd (processDirectory P dir files dryRun autoYes stdin fs)) =
           headerEffects P dir files pfx @ snd (buildPlan P dir pfx files) @ post"
proof -
  from assms(1) have f: "files \<noteq> []" "\<not> length files < 2" by auto
  let ?plans = "fst (buildPlan P dir pfx files)"
  let ?out = "headerEffects P dir files pfx @ snd (buildPlan P dir pfx files)"
  have loop: "\<exists>post. fst (snd (case renameLoop P ?plans 0 (?out @ mid) fs of
                 (successCount, out', fs') \<Rightarrow>
                   (None :: string option, out' @ [PrintSummary successCount (length ?plans)], fs')))
            = ?out @ post" for mid
  proof -
    from renameLoop_out [of P ?plans 0 "?out @ mid" fs] obtain ext where
      "fst (snd (renameLoop P ?plans 0 (?out @ mid) fs)) = (?out @ mid) @ ext" by blast
    then show ?thesis by (auto split: prod.splits)
  qed
  show ?thesis
  proof (cases "?plans = []")
    case True
    with f assms(2) show ?thesis
      by (simp add: processDirectory_def Let_def headerEffects_def)
  next
    case ne: False
    show ?thesis
    proof (cases dryRun)
      case True
      with ne f assms(2) show ?thesis
        by (simp add: processDirectory_def Let_def headerEffects_def)
    next
      case nd: False
      show ?thesis
      proof (cases autoYes)
        case True
        with loop [of "previewEffects ?plans"] ne nd f assms(2) show ?thesis
          by (simp add: processDirectory_def Let_def headerEffects_def)
      next
        case na: False
        show ?thesis
        proof (cases stdin)
          case (ReadFail e)
          with ne nd na f assms(2) show ?thesis
            by (simp add: processDirectory_def Let_def headerEffects_def)
        next
          case (ReadLine response)
          with loop [of "previewEffects ?plans @ [PrintPrompt (length ?plans)]"]
            ne nd na f assms(2) show ?thesis
            by (simp add: processDirectory_def Let_def headerEffects_def)
        qed
      qed
    qed
  qed
qed

lemma plan_skips_unprefixed_trimmed_name:
  "\<not> HasPrefix (Base P f) pfx \<Longrightarrow> TrimSpace (Base P f) = Base P f \<Longrightarrow>
   f \<notin> OldPath ` set (fst (buildPlan P dir pfx files))"
  by (auto simp: buildPlan_eq entryOf_def strippedName_def TrimPrefix_def)

section \<open>Properties of findCommonPrefix\<close>

text \<open>C6: for a sequence of 0 or 1 filenames findCommonPrefix returns the empty string.\<close>

theorem findCommonPrefix_short:
  "length strs = 0 \<or> length strs = 1 \<Longrightarrow> findCommonPrefix strs = []"
  by (auto simp: findCommonPrefix_def)

theorem findCommonPrefix_short_witness:
  "(length [''file.txt''] = 0 \<or> length [''file.txt''] = 1) \<and> findCommonPrefix [''file.txt''] = []"
  using findCommonPrefix_short [of "[''file.txt'']"] by simp

text \<open>C2: for at least two filenames the raw candidate is the byte-wise longest common
  prefix (a prefix of every filename, and every common prefix is a prefix of it); when it
  holds no separator, findCommonPrefix returns it unmodified; when its last separator is at
  position \<open>j\<close>, findCommonPrefix returns it cut right after position \<open>j\<close> (which is the
  raw candidate itself when the separator is its final byte).\<close>

theorem findCommonPrefix_longest_then_trim:
  assumes "2 \<le> length strs"
  shows "(\<forall>s\<in>set strs. prefix (rawPrefix strs) s) \<and>
         (\<forall>q. (\<forall>s\<in>set strs. prefix q s) \<longrightarrow> prefix q (rawPrefix strs)) \<and>
         ((\<forall>i<length (rawPrefix strs). \<not> sepAt (rawPrefix strs) i) \<longrightarrow>
            findCommonPrefix strs = rawPrefix strs) \<and>
         (\<forall>j<length (rawPrefix strs).
            sepAt (rawPrefix strs) j \<and>
            (\<forall>i. j < i \<and> i < length (rawPrefix strs) \<longrightarrow> \<not> sepAt (rawPrefix strs) i) \<longrightarrow>
            findCommonPrefix strs = take (Suc j) (rawPrefix strs))"
proof -
  from assms have ne: "strs \<noteq> []" by auto
  have eq: "findCommonPrefix strs = trimCommon (rawPrefix strs)"
    using assms by (rule findCommonPrefix_eq)
  have 1: "\<forall>s\<in>set strs. prefix (rawPrefix strs) s"
    by (simp add: rawPrefix_common)
  have 2: "\<forall>q. (\<forall>s\<in>set strs. prefix q s) \<longrightarrow> prefix q (rawPrefix strs)"
    using rawPrefix_longest [OF ne] by blast
  have 3: "(\<forall>i<length (rawPrefix strs). \<not> sepAt (rawPrefix strs) i) \<longrightarrow>
            findCommonPrefix strs = rawPrefix strs"
    unfolding eq by (simp add: trimCommon_no_sep)
  have 4: "\<forall>j<length (rawPrefix strs).
            sepAt (rawPrefix strs) j \<and>
            (\<forall>i. j < i \<and> i < length (rawPrefix strs) \<longrightarrow> \<not> sepAt (rawPrefix strs) i) \<longrightarrow>
            findCommonPrefix strs = take (Suc j) (rawPrefix strs)"
    unfolding eq using trimCommon_sep by blast
  from 1 2 3 4 show ?thesis by blast
qed

theorem findCommonPrefix_longest_then_trim_witness:
  "2 \<le> length [''ab-c1'', ''ab-c2''] \<and>
   prefix ''ab-c'' ''ab-c1'' \<and> prefix ''ab-c'' ''ab-c2'' \<and>
   sepAt ''ab-c'' 2 \<and> \<not> sepAt ''ab-c'' 3 \<and>
   findCommonPrefix [''ab-c1'', ''ab-c2''] = ''ab-''"
proof -
  have h: "2 \<le> length [''ab-c1'', ''ab-c2'']" by simp
  have raw: "rawPrefix [''ab-c1'', ''ab-c2''] = ''ab-c''" by code_simp
  note T = findCommonPrefix_longest_then_trim [OF h, unfolded raw]
  have s2: "sepAt ''ab-c'' 2" by code_simp
  have s3: "\<not> sepAt ''ab-c'' 3" by code_simp
  have nosep: "\<forall>i. 2 < i \<and> i < length ''ab-c'' \<longrightarrow> \<not> sepAt ''ab-c'' i"
  proof (intro allI impI)
    fix i :: nat assume "2 < i \<and> i < length ''ab-c''"
    then have "i = 3" by simp
    with s3 show "\<not> sepAt ''ab-c'' i" by simp
  qed
  from T have c4: "findCommonPrefix [''ab-c1'', ''ab-c2''] = take (Suc j) ''ab-c''"
    if "j < length ''ab-c''"
      "sepAt ''ab-c'' j \<and> (\<forall>i. j < i \<and> i < length ''ab-c'' \<longrightarrow> \<not> sepAt ''ab-c'' i)" for j
    using that by blast
  have "findCommonPrefix [''ab-c1'', ''ab-c2''] = take (Suc 2) ''ab-c''"
    by (rule c4) (use s2 nosep in simp_all)
  moreover from T have "prefix ''ab-c'' ''ab-c1''" "prefix ''ab-c'' ''ab-c2''" by simp_all
  ultimately show ?thesis using h s2 s3 by simp
qed

text \<open>C10: for at least two filenames the result of findCommonPrefix is a byte-prefix of
  every filename, and its length is at most the length of the shortest filename.\<close>

theorem findCommonPrefix_is_common_prefix:
  assumes "2 \<le> length strs"
  shows "(\<forall>s\<in>set strs. prefix (findCommonPrefix strs) s) \<and>
         length (findCommonPrefix strs) \<le> Min (length ` set strs)"
proof -
  from assms have ne: "strs \<noteq> []" by auto
  have eq: "findCommonPrefix strs = trimCommon (rawPrefix strs)"
    using assms by (rule findCommonPrefix_eq)
  have p: "prefix (findCommonPrefix strs) s" if "s \<in> set strs" for s
    unfolding eq using trimCommon_prefix rawPrefix_common [OF that] by (rule prefix_order.trans)
  then have "length (findCommonPrefix strs) \<le> length s" if "s \<in> set strs" for s
    using that by (simp add: prefix_length_le)
  then have "length (findCommonPrefix strs) \<le> Min (length ` set strs)"
    using ne by (simp add: Min_ge_iff)
  with p show ?thesis by blast
qed

theorem findCommonPrefix_is_common_prefix_witness:
  "2 \<le> length [''ab-c1'', ''ab-c2''] \<and>
   prefix (findCommonPrefix [''ab-c1'', ''ab-c2'']) ''ab-c1'' \<and>
   prefix (findCommonPrefix [''ab-c1'', ''ab-c2'']) ''ab-c2'' \<and>
   length (findCommonPrefix [''ab-c1'', ''ab-c2'']) \<le> 5"
proof -
  have h: "2 \<le> length [''ab-c1'', ''ab-c2'']" by simp
  from findCommonPrefix_is_common_prefix [OF h] h show ?thesis by simp
qed

section \<open>Properties of findMajorityPrefix\<close>




text \<open>C3: the threshold is computed in float64 arithmetic. For 90 filenames the product
  \<^verbatim>\<open>float64(90) * 0.7\<close> rounds to the double just below 63, so the threshold is 62, while
  \<open>max(2, floor(0.7 * 90))\<close> in exact arithmetic is 63; a prefix shared by 62 of 90
  filenames is returned.\<close>

theorem threshold_float_rounding:
  "thresholdOf 90 = 62 \<and> max 2 ((7 * 90) div 10) = (63::nat) \<and>
   length ninetyFiles = 90 \<and> countMatches ninetyFiles ''ab-c'' = 62 \<and>
   findMajorityPrefix ninetyFiles = ''ab-''"
proof -
  have "thresholdOf 90 = 62"
    by (simp add: thresholdOf_def roundFloat64_def float64_0_7_def bitLength.simps Let_def)
  moreover have "length ninetyFiles = 90" by code_simp
  moreover have "countMatches ninetyFiles ''ab-c'' = 62" by code_simp
  moreover have "findMajorityPrefix ninetyFiles = ''ab-''" by code_simp
  ultimately show ?thesis by simp
qed

text \<open>C5: when no candidate (a prefix of length 3 or more of some filename) reaches the
  threshold, findMajorityPrefix returns the empty string; in particular for three
  filenames of which no two share a prefix of length 3 or more.\<close>

theorem findMajorityPrefix_no_candidate:
  "((\<forall>src\<in>set strs. \<forall>l. 3 \<le> l \<and> l \<le> length src \<longrightarrow>
        countMatches strs (take l src) < thresholdOf (length strs)) \<longrightarrow>
      findMajorityPrefix strs = []) \<and>
   (length strs = 3 \<and>
    (\<forall>i<3. \<forall>j<3. i \<noteq> j \<longrightarrow>
       \<not> (\<exists>p. 3 \<le> length p \<and> prefix p (strs ! i) \<and> prefix p (strs ! j))) \<longrightarrow>
      findMajorityPrefix strs = [])"
proof (intro conjI impI)
  assume "\<forall>src\<in>set strs. \<forall>l. 3 \<le> l \<and> l \<le> length src \<longrightarrow>
        countMatches strs (take l src) < thresholdOf (length strs)"
  then show "findMajorityPrefix strs = []" by (rule findMajorityPrefix_below)
next
  assume a: "length strs = 3 \<and>
    (\<forall>i<3. \<forall>j<3. i \<noteq> j \<longrightarrow>
       \<not> (\<exists>p. 3 \<le> length p \<and> prefix p (strs ! i) \<and> prefix p (strs ! j)))"
  show "findMajorityPrefix strs = []"
  proof (rule findMajorityPrefix_below, intro ballI allI impI)
    fix src l assume "src \<in> set strs" "3 \<le> l \<and> l \<le> length src"
    then have "3 \<le> length (take l src)" by simp
    with a have "countMatches strs (take l src) < 2" by (intro three_distinct_below) simp_all
    with a show "countMatches strs (take l src) < thresholdOf (length strs)"
      by (simp add: thresholdOf_3)
  qed
qed

theorem findMajorityPrefix_no_candidate_witness:
  "length [''A-file1.txt'', ''B-file2.txt'', ''C-file3.txt''] = 3 \<and>
   CHR ''A'' \<noteq> CHR ''B'' \<and> CHR ''A'' \<noteq> CHR ''C'' \<and> CHR ''B'' \<noteq> CHR ''C'' \<and>
   findMajorityPrefix [''A-file1.txt'', ''B-file2.txt'', ''C-file3.txt''] = []"
proof -
  let ?X = "[''A-file1.txt'', ''B-file2.txt'', ''C-file3.txt'']"
  have d: "\<forall>i<3. \<forall>j<3. i \<noteq> j \<longrightarrow>
       \<not> (\<exists>p. 3 \<le> length p \<and> prefix p (?X ! i) \<and> prefix p (?X ! j))"
  proof (intro allI impI)
    fix i j :: nat assume "i < 3" "j < 3" "i \<noteq> j"
    then consider "i = 0" "j = 1" | "i = 0" "j = 2" | "i = 1" "j = 0" | "i = 1" "j = 2"
      | "i = 2" "j = 0" | "i = 2" "j = 1" by linarith
    then show "\<not> (\<exists>p. 3 \<le> length p \<and> prefix p (?X ! i) \<and> prefix p (?X ! j))"
      by cases (simp_all add: no_shared_prefix)
  qed
  have "length ?X = 3" by simp
  with d findMajorityPrefix_no_candidate [of ?X] have "findMajorityPrefix ?X = []" by blast
  then show ?thesis by simp
qed

text \<open>C9: a non-empty result of findMajorityPrefix ends in a separator, is a proper
  byte-prefix of some input filename, and has white-space-trimmed length at least 3.\<close>

theorem findMajorityPrefix_result_shape:
  assumes "findMajorityPrefix strs \<noteq> []"
  shows "endsInSeparator (findMajorityPrefix strs) \<and>
         (\<exists>s\<in>set strs. strict_prefix (findMajorityPrefix strs) s) \<and>
         3 \<le> length (TrimSpace (findMajorityPrefix strs))"
proof -
  have "goodBest strs ([], 0)" by (simp add: goodBest_def)
  then have "goodBest strs (fold (sourceStep strs (thresholdOf (length strs))) strs ([], 0))"
    by (intro fold_sourceStep_good) simp_all
  with assms show ?thesis
    by (auto simp: findMajorityPrefix_def goodBest_def split: if_splits)
qed

theorem findMajorityPrefix_result_shape_witness:
  "findMajorityPrefix [''Ab-Song1'', ''Ab-Song2''] = ''Ab-'' \<and>
   endsInSeparator ''Ab-'' \<and>
   (\<exists>s\<in>set [''Ab-Song1'', ''Ab-Song2'']. strict_prefix ''Ab-'' s) \<and>
   3 \<le> length (TrimSpace ''Ab-'')"
proof -
  have e: "findMajorityPrefix [''Ab-Song1'', ''Ab-Song2''] = ''Ab-''" by code_simp
  from findMajorityPrefix_result_shape [of "[''Ab-Song1'', ''Ab-Song2'']"] e
  show ?thesis by simp
qed

section \<open>Properties of processDirectory\<close>

text \<open>C4: the file \<^verbatim>\<open>/m/ intro.mp3\<close> does not start with the detected prefix
  \<^verbatim>\<open>Artist-\<close>, yet the plan holds an entry for it (its name loses the leading space)
  and it is renamed.\<close>

theorem plan_renames_file_without_prefix:
  "detectPrefix (map unixBase
     [''/m/Artist-Song1.mp3'', ''/m/Artist-Song2.mp3'', ''/m/Artist-Song3.mp3'', ''/m/ intro.mp3''])
     = Some ''Artist-'' \<and>
   unixBase ''/m/ intro.mp3'' = '' intro.mp3'' \<and>
   \<not> HasPrefix '' intro.mp3'' ''Artist-'' \<and>
   fst (buildPlan unixPlatform ''/m'' ''Artist-''
     [''/m/Artist-Song1.mp3'', ''/m/Artist-Song2.mp3'', ''/m/Artist-Song3.mp3'', ''/m/ intro.mp3''])
     = [\<lparr>OldPath = ''/m/Artist-Song1.mp3'', NewPath = ''/m/Song1.mp3'',
          OldName = ''Artist-Song1.mp3'', NewName = ''Song1.mp3''\<rparr>,
        \<lparr>OldPath = ''/m/Artist-Song2.mp3'', NewPath = ''/m/Song2.mp3'',
          OldName = ''Artist-Song2.mp3'', NewName = ''Song2.mp3''\<rparr>,
        \<lparr>OldPath = ''/m/Artist-Song3.mp3'', NewPath = ''/m/Song3.mp3'',
          OldName = ''Artist-Song3.mp3'', NewName = ''Song3.mp3''\<rparr>,
        \<lparr>OldPath = ''/m/ intro.mp3'', NewPath = ''/m/intro.mp3'',
          OldName = '' intro.mp3'', NewName = ''intro.mp3''\<rparr>] \<and>
   renameCalls (fst (snd (processDirectory unixPlatform ''/m''
     [''/m/Artist-Song1.mp3'', ''/m/Artist-Song2.mp3'', ''/m/Artist-Song3.mp3'', ''/m/ intro.mp3'']
     False True (ReadFail ''EOF'')
     [''/m/Artist-Song1.mp3'', ''/m/Artist-Song2.mp3'', ''/m/Artist-Song3.mp3'', ''/m/ intro.mp3''])))
     = [(''/m/Artist-Song1.mp3'', ''/m/Song1.mp3''), (''/m/Artist-Song2.mp3'', ''/m/Song2.mp3''),
        (''/m/Artist-Song3.mp3'', ''/m/Song3.mp3''), (''/m/ intro.mp3'', ''/m/intro.mp3'')]"
  by code_simp

text \<open>C7: every entry of the plan has a non-empty new name that differs from the old
  name, and its new path is the directory joined with the new name; the entries are, in
  order, the files whose stripped name is neither empty nor the old name; the output of
  the loop is one warning for each file whose stripped name is empty, and nothing else;
  these warnings are part of the output of processDirectory.\<close>

theorem rename_plan_entries:
  "(\<forall>e\<in>set (fst (buildPlan P dir pfx files)).
      NewName e \<noteq> [] \<and> NewName e \<noteq> OldName e \<and> NewPath e = Join P dir (NewName e) \<and>
      OldName e = Base P (OldPath e) \<and> NewName e = strippedName P pfx (OldPath e)) \<and>
   map OldPath (fst (buildPlan P dir pfx files)) =
     filter (\<lambda>f. strippedName P pfx f \<noteq> [] \<and> strippedName P pfx f \<noteq> Base P f) files \<and>
   snd (buildPlan P dir pfx files) =
     map (\<lambda>f. PrintWarningEmpty (Base P f)) (filter (\<lambda>f. strippedName P pfx f = []) files) \<and>
   (2 \<le> length files \<and> detectPrefix (map (Base P) files) = Some pfx \<longrightarrow>
      (\<exists>post. fst (snd (processDirectory P dir files dryRun autoYes stdin fs)) =
           headerEffects P dir files pfx @ snd (buildPlan P dir pfx files) @ post))"
proof -
  have 1: "\<forall>e\<in>set (fst (buildPlan P dir pfx files)).
      NewName e \<noteq> [] \<and> NewName e \<noteq> OldName e \<and> NewPath e = Join P dir (NewName e) \<and>
      OldName e = Base P (OldPath e) \<and> NewName e = strippedName P pfx (OldPath e)"
    by (auto simp: buildPlan_eq entryOf_def)
  have 2: "map OldPath (fst (buildPlan P dir pfx files)) =
     filter (\<lambda>f. strippedName P pfx f \<noteq> [] \<and> strippedName P pfx f \<noteq> Base P f) files"
    by (simp add: buildPlan_eq entryOf_def comp_def)
  have 3: "snd (buildPlan P dir pfx files) =
     map (\<lambda>f. PrintWarningEmpty (Base P f)) (filter (\<lambda>f. strippedName P pfx f = []) files)"
    by (simp add: buildPlan_eq)
  from 1 2 3 processDirectory_effects [of files P pfx dir dryRun autoYes stdin fs]
  show ?thesis by blast
qed

theorem rename_plan_entries_witness:
  "2 \<le> length [''/m/Ab-Song1'', ''/m/Ab-Song2'', ''/m/Ab-Song3'', ''/m/Ab- '', ''/m/other''] \<and>
   detectPrefix (map (Base unixPlatform)
     [''/m/Ab-Song1'', ''/m/Ab-Song2'', ''/m/Ab-Song3'', ''/m/Ab- '', ''/m/other'']) = Some ''Ab-'' \<and>
   strippedName unixPlatform ''Ab-'' ''/m/Ab- '' = [] \<and>
   strippedName unixPlatform ''Ab-'' ''/m/other'' = Base unixPlatform ''/m/other'' \<and>
   map OldPath (fst (buildPlan unixPlatform ''/m'' ''Ab-''
     [''/m/Ab-Song1'', ''/m/Ab-Song2'', ''/m/Ab-Song3'', ''/m/Ab- '', ''/m/other'']))
     = [''/m/Ab-Song1'', ''/m/Ab-Song2'', ''/m/Ab-Song3''] \<and>
   map NewPath (fst (buildPlan unixPlatform ''/m'' ''Ab-''
     [''/m/Ab-Song1'', ''/m/Ab-Song2'', ''/m/Ab-Song3'', ''/m/Ab- '', ''/m/other'']))
     = [''/m/Song1'', ''/m/Song2'', ''/m/Song3''] \<and>
   snd (buildPlan unixPlatform ''/m'' ''Ab-''
     [''/m/Ab-Song1'', ''/m/Ab-Song2'', ''/m/Ab-Song3'', ''/m/Ab- '', ''/m/other''])
     = [PrintWarningEmpty ''Ab- ''] \<and>
   (\<exists>post. fst (snd (processDirectory unixPlatform ''/m''
       [''/m/Ab-Song1'', ''/m/Ab-Song2'', ''/m/Ab-Song3'', ''/m/Ab- '', ''/m/other'']
       True False (ReadFail ''EOF'') [])) =
     headerEffects unixPlatform ''/m''
       [''/m/Ab-Song1'', ''/m/Ab-Song2'', ''/m/Ab-Song3'', ''/m/Ab- '', ''/m/other''] ''Ab-''
     @ [PrintWarningEmpty ''Ab- ''] @ post)"
proof -
  let ?F = "[''/m/Ab-Song1'', ''/m/Ab-Song2'', ''/m/Ab-Song3'', ''/m/Ab- '', ''/m/other'']"
  have l: "2 \<le> length ?F" by simp
  have d: "detectPrefix (map (Base unixPlatform) ?F) = Some ''Ab-''" by code_simp
  have s1: "strippedName unixPlatform ''Ab-'' ''/m/Ab- '' = []" by code_simp
  have s2: "strippedName unixPlatform ''Ab-'' ''/m/other'' = Base unixPlatform ''/m/other''"
    by code_simp
  have o: "map OldPath (fst (buildPlan unixPlatform ''/m'' ''Ab-'' ?F))
     = [''/m/Ab-Song1'', ''/m/Ab-Song2'', ''/m/Ab-Song3'']" by code_simp
  have n: "map NewPath (fst (buildPlan unixPlatform ''/m'' ''Ab-'' ?F))
     = [''/m/Song1'', ''/m/Song2'', ''/m/Song3'']" by code_simp
  have w: "snd (buildPlan unixPlatform ''/m'' ''Ab-'' ?F) = [PrintWarningEmpty ''Ab- '']"
    by code_simp
  from rename_plan_entries [of unixPlatform "''/m''" "''Ab-''" ?F True False "ReadFail ''EOF''" "[]"]
    l d
  have "\<exists>post. fst (snd (processDirectory unixPlatform ''/m'' ?F True False (ReadFail ''EOF'') [])) =
     headerEffects unixPlatform ''/m'' ?F ''Ab-''
     @ snd (buildPlan unixPlatform ''/m'' ''Ab-'' ?F) @ post" by blast
  then have "\<exists>post. fst (snd (processDirectory unixPlatform ''/m'' ?F True False (ReadFail ''EOF'') [])) =
     headerEffects unixPlatform ''/m'' ?F ''Ab-'' @ [PrintWarningEmpty ''Ab- ''] @ post"
    unfolding w .
  with l d s1 s2 o n w show ?thesis by blast
qed

text \<open>C8: in an interactive run (no dry run, no auto-confirm) on a line read from
  standard input, the answer is affirmative exactly when the line, trimmed and
  lower-cased, is \<^verbatim>\<open>y\<close> or \<^verbatim>\<open>yes\<close>; on any other answer no file is renamed, the file
  system is unchanged and the group is reported as skipped; on an affirmative answer
  at the prompt \<^verbatim>\<open>os.Rename\<close> is called for every entry of the plan, in order.\<close>

theorem confirmation_decision:
  assumes run: "processDirectory P dir files False False (ReadLine response) fs = (err, out, fs')"
  shows "(isAffirmative (unicodeLower P) response =
            (ToLower (unicodeLower P) (TrimSpace response) = ''y'' \<or>
             ToLower (unicodeLower P) (TrimSpace response) = ''yes'')) \<and>
         (\<not> isAffirmative (unicodeLower P) response \<longrightarrow>
            renameCalls out = [] \<and> fs' = fs \<and> err = None) \<and>
         ((\<exists>n. PrintPrompt n \<in> set out) \<and> \<not> isAffirmative (unicodeLower P) response \<longrightarrow>
            PrintSkipped \<in> set out) \<and>
         ((\<exists>n. PrintPrompt n \<in> set out) \<and> isAffirmative (unicodeLower P) response \<longrightarrow>
            (\<exists>pfx. detectPrefix (map (Base P) files) = Some pfx \<and>
                   fst (buildPlan P dir pfx files) \<noteq> [] \<and>
                   renameCalls out =
                     map (\<lambda>e. (OldPath e, NewPath e)) (fst (buildPlan P dir pfx files))))"
proof -
  have 1: "isAffirmative (unicodeLower P) response =
            (ToLower (unicodeLower P) (TrimSpace response) = ''y'' \<or>
             ToLower (unicodeLower P) (TrimSpace response) = ''yes'')"
    by (simp add: isAffirmative_def Let_def)
  show ?thesis
  proof (cases "length files < 2 \<or> detectPrefix (map (Base P) files) = None")
    case True
    from processDirectory_none [OF True] run have "out = []" "fs' = fs" "err = None" by simp_all
    with 1 show ?thesis by simp
  next
    case False
    then obtain pfx where pfx: "2 \<le> length files" "detectPrefix (map (Base P) files) = Some pfx"
      by auto
    let ?plans = "fst (buildPlan P dir pfx files)"
    let ?out = "headerEffects P dir files pfx @ snd (buildPlan P dir pfx files)"
    note eq = processDirectory_interactive [OF pfx, of dir response fs]
    have nc: "renameCalls ?out = []"
      by (simp add: renameCalls_append renameCalls_header renameCalls_built)
    have np: "PrintPrompt n \<notin> set ?out" for n
      by (auto simp: headerEffects_def buildPlan_eq)
    show ?thesis
    proof (cases "?plans = []")
      case True
      with eq run have "out = ?out" "fs' = fs" "err = None" by (simp_all add: Let_def)
      with 1 nc np show ?thesis by simp
    next
      case ne: False
      show ?thesis
      proof (cases "isAffirmative (unicodeLower P) response")
        case False
        with eq run ne have "out = ?out @ previewEffects ?plans @ [PrintPrompt (length ?plans), PrintSkipped]"
          "fs' = fs" "err = None" by (simp_all add: Let_def)
        with 1 nc False show ?thesis
          by (simp add: renameCalls_append renameCalls_preview)
      next
        case True
        let ?o = "?out @ previewEffects ?plans @ [PrintPrompt (length ?plans)]"
        from renameLoop_out [of P ?plans 0 ?o fs] obtain ext where
          ext: "fst (snd (renameLoop P ?plans 0 ?o fs)) = ?o @ ext"
               "renameCalls ext = map (\<lambda>e. (OldPath e, NewPath e)) ?plans" by blast
        from eq run ne True have "out = fst (snd (renameLoop P ?plans 0 ?o fs))
               @ [PrintSummary (fst (renameLoop P ?plans 0 ?o fs)) (length ?plans)]"
          by (simp add: Let_def split: prod.splits)
        with ext have "renameCalls out = map (\<lambda>e. (OldPath e, NewPath e)) ?plans"
          by (simp add: renameCalls_append renameCalls_preview renameCalls_header
                renameCalls_built)
        with 1 True pfx ne show ?thesis by auto
      qed
    qed
  qed
qed

theorem confirmation_decision_witness:
  "processDirectory unixPlatform ''/m'' [''/m/Ab-Song1'', ''/m/Ab-Song2''] False False
     (ReadLine [CHR 0x0A]) [''/m/Ab-Song1'', ''/m/Ab-Song2''] =
     (None,
      [PrintDirectory ''/m'', PrintPrefixFound ''Ab-'' 3, PrintFileCount 2 2,
       PrintExample ''Ab-Song1'', PrintPreviewHeader,
       PrintPreviewEntry ''Ab-Song1'' ''Song1'', PrintPreviewEntry ''Ab-Song2'' ''Song2'',
       PrintPrompt 2, PrintSkipped],
      [''/m/Ab-Song1'', ''/m/Ab-Song2'']) \<and>
   \<not> isAffirmative (unicodeLower unixPlatform) [CHR 0x0A] \<and>
   processDirectory unixPlatform ''/m'' [''/m/Ab-Song1'', ''/m/Ab-Song2''] False False
     (ReadLine ('' YES'' @ [CHR 0x0D, CHR 0x0A])) [''/m/Ab-Song1'', ''/m/Ab-Song2''] =
     (None,
      [PrintDirectory ''/m'', PrintPrefixFound ''Ab-'' 3, PrintFileCount 2 2,
       PrintExample ''Ab-Song1'', PrintPreviewHeader,
       PrintPreviewEntry ''Ab-Song1'' ''Song1'', PrintPreviewEntry ''Ab-Song2'' ''Song2'',
       PrintPrompt 2, CallRename ''/m/Ab-Song1'' ''/m/Song1'',
       CallRename ''/m/Ab-Song2'' ''/m/Song2'', PrintSummary 2 2],
      [''/m/Song2'', ''/m/Song1'']) \<and>
   isAffirmative (unicodeLower unixPlatform) ('' YES'' @ [CHR 0x0D, CHR 0x0A]) \<and>
   ToLower (unicodeLower unixPlatform) (TrimSpace ('' YES'' @ [CHR 0x0D, CHR 0x0A])) = ''yes''"
proof -
  let ?F = "[''/m/Ab-Song1'', ''/m/Ab-Song2'']"
  let ?O1 = "[PrintDirectory ''/m'', PrintPrefixFound ''Ab-'' 3, PrintFileCount 2 2,
       PrintExample ''Ab-Song1'', PrintPreviewHeader,
       PrintPreviewEntry ''Ab-Song1'' ''Song1'', PrintPreviewEntry ''Ab-Song2'' ''Song2'',
       PrintPrompt 2, PrintSkipped]"
  let ?O2 = "[PrintDirectory ''/m'', PrintPrefixFound ''Ab-'' 3, PrintFileCount 2 2,
       PrintExample ''Ab-Song1'', PrintPreviewHeader,
       PrintPreviewEntry ''Ab-Song1'' ''Song1'', PrintPreviewEntry ''Ab-Song2'' ''Song2'',
       PrintPrompt 2, CallRename ''/m/Ab-Song1'' ''/m/Song1'',
       CallRename ''/m/Ab-Song2'' ''/m/Song2'', PrintSummary 2 2]"
  have e1: "processDirectory unixPlatform ''/m'' ?F False False (ReadLine [CHR 0x0A]) ?F =
     (None, ?O1, ?F)" by code_simp
  have e2: "processDirectory unixPlatform ''/m'' ?F False False
     (ReadLine ('' YES'' @ [CHR 0x0D, CHR 0x0A])) ?F = (None, ?O2, [''/m/Song2'', ''/m/Song1''])"
    by code_simp
  have t: "ToLower (unicodeLower unixPlatform) (TrimSpace ('' YES'' @ [CHR 0x0D, CHR 0x0A])) = ''yes''"
    by code_simp
  have c: "renameCalls ?O1 = []" "renameCalls ?O2 \<noteq> []" by simp_all
  from confirmation_decision [OF e2] c(2)
  have a2: "isAffirmative (unicodeLower unixPlatform) ('' YES'' @ [CHR 0x0D, CHR 0x0A])"
    by blast
  have p: "\<exists>n. PrintPrompt n \<in> set ?O1" by (intro exI [of _ 2]) simp
  from confirmation_decision [OF e1] p c(1)
  have a1: "\<not> isAffirmative (unicodeLower unixPlatform) [CHR 0x0A]" 
    by (metis (no_types, lifting) c(1) list.simps(3) map_is_Nil_conv)
  from e1 e2 a1 a2 t show ?thesis by blast
qed

end
